theory Spec2Isabelle
  imports Main "HOL-Library.Word"
begin

section \<open>Data model of the consumer group manager\<close>

text \<open>
  The manager of \<^verbatim>\<open>pkg/common/consumer/consumer_manager.go\<close> keeps a map from group
  ids to managed groups and a factory holding the broker list and the Sarama
  configuration. It is embedded with explicit state passing: every method of
  \<^verbatim>\<open>kafkaConsumerGroupManagerImpl\<close> takes the manager and returns the Go \<^verbatim>\<open>error\<close>
  (\<open>None\<close> is \<^verbatim>\<open>nil\<close>) together with the manager afterwards. The logger, the
  control-protocol server and the \<^verbatim>\<open>groupLock\<close> mutex do not influence any result
  and are left out.
\<close>

text \<open>Opaque handles of the Sarama library: a \<^verbatim>\<open>*sarama.Config\<close> and a
  \<^verbatim>\<open>sarama.ConsumerGroup\<close>, told apart by their identity only.\<close>

datatype saramaConfig = SaramaConfig nat

datatype consumerGroup = ConsumerGroup nat

text \<open>
  Modelled from the spec: the package \<^verbatim>\<open>commands\<close> with \<^verbatim>\<open>CommandLock\<close> and
  \<^verbatim>\<open>ConsumerGroupAsyncCommand\<close> is not among the sources. Section 6 gives the payload
  of a command as a version of 16 bits, a group id and a lock of a token and the two
  flags; the fields carry the names under which the manager reads and builds them.
  The manager receives the lock as a pointer, which may be \<^verbatim>\<open>nil\<close>:
  \<open>commandLock option\<close>.
\<close>

record commandLock =
  Token :: string
  LockBefore :: bool
  UnlockAfter :: bool

record consumerGroupAsyncCommand =
  Version :: "16 word"
  GroupId :: string
  Lock :: "commandLock option"

text \<open>
  Go errors as values. The four messages built with \<^verbatim>\<open>fmt.Errorf\<close> by the manager and
  the one built by the command handler have a constructor each, carrying the values
  formatted into the message:
  \<^item> \<open>CloseNotManaged g\<close>: "could not close consumer group with id 'g' - group is not
    present in the managed map";
  \<^item> \<open>StopNotManaged g\<close>: "stop requested for consumer group not in managed list: g";
  \<^item> \<open>StartNotManaged g\<close>: "start requested for consumer group not in managed list: g";
  \<^item> \<open>VersionMismatch e v\<close>: "version mismatch; expected e but got v".

  \<open>ErrClosedConsumerGroup\<close> is the sentinel \<^verbatim>\<open>sarama.ErrClosedConsumerGroup\<close>,
  \<open>OtherError\<close> any error of a collaborator, and \<open>MultiError\<close> the combined error of
  \<^verbatim>\<open>go.uber.org/multierr\<close>.
\<close>

datatype error =
    ErrClosedConsumerGroup
  | CloseNotManaged string
  | StopNotManaged string
  | StartNotManaged string
  | VersionMismatch "16 word" "16 word"
  | OtherError string
  | MultiError "error list"

text \<open>
  The calls the manager makes on its collaborators, in the order it makes them. The
  managed group (\<^verbatim>\<open>managedGroup\<close>, \<^verbatim>\<open>createManagedGroup\<close>), the factory methods
  \<^verbatim>\<open>createConsumerGroup\<close> and \<^verbatim>\<open>startExistingConsumerGroup\<close> and the Sarama
  constructor are not part of \<^verbatim>\<open>consumer_manager.go\<close>; what the manager asks of them is
  recorded here, each call with its arguments.
\<close>

datatype call =
    Call_newConsumerGroup "string list" string saramaConfig
  | Call_startExistingConsumerGroup string consumerGroup "string list"
  | Call_createManagedGroup string consumerGroup
  | Call_processLock string "commandLock option" bool
  | Call_stop string
  | Call_start string consumerGroup
  | Call_close string

record kafkaConsumerGroupFactoryImpl =
  addrs :: "string list"
  config :: saramaConfig

record 'g kafkaConsumerGroupManagerImpl =
  factory :: kafkaConsumerGroupFactoryImpl
  groups :: "string \<rightharpoonup> 'g"
  calls :: "call list"

text \<open>
  The collaborators, taken as parameters. \<open>'g\<close> is the state of one managed group;
  a method of the \<^verbatim>\<open>managedGroup\<close> interface is a function from the state of the group
  to its result and the state afterwards. \<open>newConsumerGroup\<close> is
  \<^verbatim>\<open>sarama.NewConsumerGroup\<close>; its outcome may depend on everything that was called
  before, so it also receives the calls made so far.
\<close>

record 'g collaborators =
  newConsumerGroup :: "call list \<Rightarrow> string list \<Rightarrow> string \<Rightarrow> saramaConfig \<Rightarrow> error + consumerGroup"
  createManagedGroup :: "consumerGroup \<Rightarrow> 'g"
  processLock :: "commandLock option \<Rightarrow> bool \<Rightarrow> 'g \<Rightarrow> error option \<times> 'g"
  stop :: "'g \<Rightarrow> error option \<times> 'g"
  start :: "consumerGroup \<Rightarrow> 'g \<Rightarrow> 'g"
  close :: "'g \<Rightarrow> error option \<times> 'g"

section \<open>The group registry\<close>

definition getGroup :: "'g kafkaConsumerGroupManagerImpl \<Rightarrow> string \<Rightarrow> 'g option" where
  "getGroup m groupId = groups m groupId"

definition setGroup ::
  "string \<Rightarrow> 'g \<Rightarrow> 'g kafkaConsumerGroupManagerImpl \<Rightarrow> 'g kafkaConsumerGroupManagerImpl" where
  "setGroup groupId grp m = m\<lparr>groups := (groups m)(groupId \<mapsto> grp)\<rparr>"

definition removeGroup ::
  "string \<Rightarrow> 'g kafkaConsumerGroupManagerImpl \<Rightarrow> 'g kafkaConsumerGroupManagerImpl" where
  "removeGroup groupId m = m\<lparr>groups := (groups m)(groupId := None)\<rparr>"

definition IsManaged :: "'g kafkaConsumerGroupManagerImpl \<Rightarrow> string \<Rightarrow> bool" where
  "IsManaged m groupId = (getGroup m groupId \<noteq> None)"

text \<open>
  The registry holds pointers: a method called on a managed group changes the object
  the registry points to. \<open>called c groupId grp' m\<close> is the manager after the call
  \<open>c\<close> has left the group registered as \<open>groupId\<close> in the state \<open>grp'\<close>.
\<close>

definition called ::
  "call \<Rightarrow> string \<Rightarrow> 'g \<Rightarrow> 'g kafkaConsumerGroupManagerImpl \<Rightarrow> 'g kafkaConsumerGroupManagerImpl" where
  "called c groupId grp' m =
     m\<lparr>groups := (groups m)(groupId \<mapsto> grp'), calls := calls m @ [c]\<rparr>"

section \<open>Locking, stopping and starting one group\<close>

definition lockBefore ::
  "'g collaborators \<Rightarrow> commandLock option \<Rightarrow> string \<Rightarrow> 'g kafkaConsumerGroupManagerImpl
     \<Rightarrow> error option \<times> 'g kafkaConsumerGroupManagerImpl" where
  "lockBefore env lock groupId m =
     (case getGroup m groupId of
        None \<Rightarrow> (None, m)
      | Some grp \<Rightarrow>
          (case processLock env lock True grp of
             (err, grp') \<Rightarrow> (err, called (Call_processLock groupId lock True) groupId grp' m)))"

definition unlockAfter ::
  "'g collaborators \<Rightarrow> commandLock option \<Rightarrow> string \<Rightarrow> 'g kafkaConsumerGroupManagerImpl
     \<Rightarrow> error option \<times> 'g kafkaConsumerGroupManagerImpl" where
  "unlockAfter env lock groupId m =
     (case getGroup m groupId of
        None \<Rightarrow> (None, m)
      | Some grp \<Rightarrow>
          (case processLock env lock False grp of
             (err, grp') \<Rightarrow> (err, called (Call_processLock groupId lock False) groupId grp' m)))"

definition stopConsumerGroup ::
  "'g collaborators \<Rightarrow> commandLock option \<Rightarrow> string \<Rightarrow> 'g kafkaConsumerGroupManagerImpl
     \<Rightarrow> error option \<times> 'g kafkaConsumerGroupManagerImpl" where
  "stopConsumerGroup env lock groupId m =
     (case lockBefore env lock groupId m of
        (Some err, m1) \<Rightarrow> (Some err, m1)
      | (None, m1) \<Rightarrow>
          (case getGroup m1 groupId of
             None \<Rightarrow> (Some (StopNotManaged groupId), m1)
           | Some managedGrp \<Rightarrow>
               (case stop env managedGrp of
                  (Some err, managedGrp') \<Rightarrow> (Some err, called (Call_stop groupId) groupId managedGrp' m1)
                | (None, managedGrp') \<Rightarrow>
                    unlockAfter env lock groupId (called (Call_stop groupId) groupId managedGrp' m1))))"

text \<open>
  Modelled from the spec: \<^verbatim>\<open>createConsumerGroup\<close> of the factory is not among the
  sources. By section 4.1 it builds a fresh session for the group id from the stored
  broker list and client configuration and returns a failure verbatim; the factory
  method that is among the sources does so with
  \<^verbatim>\<open>newConsumerGroup(c.addrs, groupID, c.config)\<close>.
\<close>

definition createConsumerGroup ::
  "'g collaborators \<Rightarrow> string \<Rightarrow> 'g kafkaConsumerGroupManagerImpl
     \<Rightarrow> (error + consumerGroup) \<times> 'g kafkaConsumerGroupManagerImpl" where
  "createConsumerGroup env groupId m =
     (newConsumerGroup env (calls m) (addrs (factory m)) groupId (config (factory m)),
      m\<lparr>calls := calls m @ [Call_newConsumerGroup (addrs (factory m)) groupId (config (factory m))]\<rparr>)"

definition startConsumerGroup ::
  "'g collaborators \<Rightarrow> commandLock option \<Rightarrow> string \<Rightarrow> 'g kafkaConsumerGroupManagerImpl
     \<Rightarrow> error option \<times> 'g kafkaConsumerGroupManagerImpl" where
  "startConsumerGroup env lock groupId m =
     (case lockBefore env lock groupId m of
        (Some err, m1) \<Rightarrow> (Some err, m1)
      | (None, m1) \<Rightarrow>
          (case getGroup m1 groupId of
             None \<Rightarrow> (Some (StartNotManaged groupId), m1)
           | Some managedGrp \<Rightarrow>
               (case createConsumerGroup env groupId m1 of
                  (Inl err, m2) \<Rightarrow> (Some err, m2)
                | (Inr grp, m2) \<Rightarrow>
                    unlockAfter env lock groupId
                      (called (Call_start groupId grp) groupId (start env grp managedGrp) m2))))"

section \<open>The public operations\<close>

text \<open>
  \<^verbatim>\<open>StartConsumerGroup\<close>: the factory creates the Sarama group; on failure the error
  is returned at once. Otherwise the factory starts the consume goroutine
  (\<^verbatim>\<open>startExistingConsumerGroup\<close>), the managed group is created around the Sarama
  group, and \<^verbatim>\<open>setGroup\<close> stores it under the group id.
\<close>

definition StartConsumerGroup ::
  "'g collaborators \<Rightarrow> string \<Rightarrow> string list \<Rightarrow> 'g kafkaConsumerGroupManagerImpl
     \<Rightarrow> error option \<times> 'g kafkaConsumerGroupManagerImpl" where
  "StartConsumerGroup env groupId topics m =
     (case createConsumerGroup env groupId m of
        (Inl err, m1) \<Rightarrow> (Some err, m1)
      | (Inr grp, m1) \<Rightarrow>
          (let m2 = m1\<lparr>calls := calls m1 @ [Call_startExistingConsumerGroup groupId grp topics]\<rparr>;
               managedGrp = createManagedGroup env grp;
               m3 = m2\<lparr>calls := calls m2 @ [Call_createManagedGroup groupId grp]\<rparr>
           in (None, setGroup groupId managedGrp m3)))"

definition CloseConsumerGroup ::
  "'g collaborators \<Rightarrow> string \<Rightarrow> 'g kafkaConsumerGroupManagerImpl
     \<Rightarrow> error option \<times> 'g kafkaConsumerGroupManagerImpl" where
  "CloseConsumerGroup env groupId m =
     (case getGroup m groupId of
        None \<Rightarrow> (Some (CloseNotManaged groupId), m)
      | Some managedGrp \<Rightarrow>
          (case close env managedGrp of
             (Some err, managedGrp') \<Rightarrow> (Some err, called (Call_close groupId) groupId managedGrp' m)
           | (None, managedGrp') \<Rightarrow>
               (None, removeGroup groupId (called (Call_close groupId) groupId managedGrp' m))))"

section \<open>The handler of asynchronous control commands\<close>

text \<open>
  \<^verbatim>\<open>processAsyncGroupNotification\<close>. The parsed command of the message is an
  \<^verbatim>\<open>interface{}\<close>; \<open>None\<close> stands for every value whose type assertion to
  \<^verbatim>\<open>*commands.ConsumerGroupAsyncCommand\<close> fails. The replies are the calls made on the
  message, in order. The compiled-in \<^verbatim>\<open>commands.ConsumerGroupAsyncCommandVersion\<close> is
  not among the sources and is the first parameter. The group function is
  \<^verbatim>\<open>manager.stopConsumerGroup\<close> or \<^verbatim>\<open>manager.startConsumerGroup\<close>; it acts on a
  state \<open>'s\<close>.
\<close>

datatype reply = NotifySuccess | NotifyFailed error

definition processAsyncGroupNotification ::
  "16 word \<Rightarrow> consumerGroupAsyncCommand option
     \<Rightarrow> (commandLock option \<Rightarrow> string \<Rightarrow> 's \<Rightarrow> error option \<times> 's) \<Rightarrow> 's \<Rightarrow> reply list \<times> 's" where
  "processAsyncGroupNotification ConsumerGroupAsyncCommandVersion parsedCommand groupFunction s =
     (case parsedCommand of
        None \<Rightarrow> ([], s)
      | Some cmd \<Rightarrow>
          (if Version cmd \<noteq> ConsumerGroupAsyncCommandVersion
           then ([NotifyFailed (VersionMismatch ConsumerGroupAsyncCommandVersion (Version cmd))], s)
           else
             (case groupFunction (Lock cmd) (GroupId cmd) s of
                (Some err, s') \<Rightarrow> ([NotifyFailed err], s')
              | (None, s') \<Rightarrow> ([NotifySuccess], s'))))"

section \<open>Reconfigure\<close>

text \<open>
  The combined error of \<^verbatim>\<open>go.uber.org/multierr\<close>, as the library documents it:
  \<^verbatim>\<open>Append\<close> of \<^verbatim>\<open>nil\<close> and an error is that error; of two errors it is a multi-error
  holding the errors of both, a multi-error contributing its elements and any other
  error itself. \<^verbatim>\<open>AppendInto(&into, err)\<close> stores \<^verbatim>\<open>Append(into, err)\<close> in \<open>into\<close>, and
  \<^verbatim>\<open>Errors\<close> lists the errors a combined error holds.
\<close>

fun multierr_errors :: "error \<Rightarrow> error list" where
  "multierr_errors (MultiError es) = es"
| "multierr_errors e = [e]"

fun multierr_Append :: "error option \<Rightarrow> error option \<Rightarrow> error option" where
  "multierr_Append None right = right"
| "multierr_Append (Some l) None = Some l"
| "multierr_Append (Some l) (Some r) = Some (MultiError (multierr_errors l @ multierr_errors r))"

definition multierr_AppendInto :: "error option \<Rightarrow> error \<Rightarrow> error option" where
  "multierr_AppendInto into err = multierr_Append into (Some err)"

definition multierr_Errors :: "error option \<Rightarrow> error list" where
  "multierr_Errors err = (case err of None \<Rightarrow> [] | Some e \<Rightarrow> multierr_errors e)"

definition internalToken :: string where
  "internalToken = ''internal-token''"

text \<open>The two locks of \<^verbatim>\<open>Reconfigure\<close>:
  \<^verbatim>\<open>&commands.CommandLock{Token: internalToken, LockBefore: true}\<close> for the stops and
  \<^verbatim>\<open>&commands.CommandLock{Token: internalToken, UnlockAfter: true}\<close> for the starts.\<close>

definition stopLock :: commandLock where
  "stopLock = \<lparr>Token = internalToken, LockBefore = True, UnlockAfter = False\<rparr>"

definition startLock :: commandLock where
  "startLock = \<lparr>Token = internalToken, LockBefore = False, UnlockAfter = True\<rparr>"

text \<open>
  The first loop of \<^verbatim>\<open>Reconfigure\<close>, \<^verbatim>\<open>for groupId := range m.groups\<close>. Go leaves the
  order of a range over a map open; the list of group ids is the order of this run. The
  loop carries \<^verbatim>\<open>multiErr\<close> and \<^verbatim>\<open>groupsToRestart\<close>.
\<close>

fun Reconfigure_stop_loop ::
  "'g collaborators \<Rightarrow> string list \<Rightarrow> error option \<Rightarrow> string list \<Rightarrow> 'g kafkaConsumerGroupManagerImpl
     \<Rightarrow> error option \<times> string list \<times> 'g kafkaConsumerGroupManagerImpl" where
  "Reconfigure_stop_loop env [] multiErr groupsToRestart m = (multiErr, groupsToRestart, m)"
| "Reconfigure_stop_loop env (groupId # rest) multiErr groupsToRestart m =
     (case stopConsumerGroup env (Some stopLock) groupId m of
        (Some err, m') \<Rightarrow>
          Reconfigure_stop_loop env rest (multierr_AppendInto multiErr err) groupsToRestart m'
      | (None, m') \<Rightarrow>
          Reconfigure_stop_loop env rest multiErr (groupsToRestart @ [groupId]) m')"

text \<open>The second loop, \<^verbatim>\<open>for _, groupId := range groupsToRestart\<close>.\<close>

fun Reconfigure_start_loop ::
  "'g collaborators \<Rightarrow> string list \<Rightarrow> error option \<Rightarrow> 'g kafkaConsumerGroupManagerImpl
     \<Rightarrow> error option \<times> 'g kafkaConsumerGroupManagerImpl" where
  "Reconfigure_start_loop env [] multiErr m = (multiErr, m)"
| "Reconfigure_start_loop env (groupId # rest) multiErr m =
     (case startConsumerGroup env (Some startLock) groupId m of
        (Some err, m') \<Rightarrow> Reconfigure_start_loop env rest (multierr_AppendInto multiErr err) m'
      | (None, m') \<Rightarrow> Reconfigure_start_loop env rest multiErr m')"

text \<open>\<^verbatim>\<open>Reconfigure(brokers, config)\<close>; \<open>range_order\<close> is the order in which the range
  over \<^verbatim>\<open>m.groups\<close> yields the registered group ids.\<close>

definition Reconfigure ::
  "'g collaborators \<Rightarrow> string list \<Rightarrow> string list \<Rightarrow> saramaConfig \<Rightarrow> 'g kafkaConsumerGroupManagerImpl
     \<Rightarrow> error option \<times> 'g kafkaConsumerGroupManagerImpl" where
  "Reconfigure env range_order brokers cfg m =
     (case Reconfigure_stop_loop env range_order None [] m of
        (multiErr, groupsToRestart, m1) \<Rightarrow>
          Reconfigure_start_loop env groupsToRestart multiErr
            (m1\<lparr>factory := \<lparr>addrs = brokers, config = cfg\<rparr>\<rparr>))"

subsection \<open>What the specification says of Reconfigure\<close>

text \<open>
  The specification describes \<^verbatim>\<open>Reconfigure\<close> as attempting an operation on each group
  of a list, whatever the earlier attempts returned, and recording each result.
  \<open>attempt_each\<close> is that description: it runs the operation on every group id in turn
  and returns the result of each. \<open>failures\<close> are the errors among the results and
  \<open>succeeded\<close> the group ids whose attempt returned \<^verbatim>\<open>nil\<close>.
\<close>

fun attempt_each ::
  "(string \<Rightarrow> 's \<Rightarrow> error option \<times> 's) \<Rightarrow> string list \<Rightarrow> 's \<Rightarrow> (string \<times> error option) list \<times> 's" where
  "attempt_each operation [] s = ([], s)"
| "attempt_each operation (groupId # rest) s =
     (case operation groupId s of
        (result, s') \<Rightarrow>
          (case attempt_each operation rest s' of
             (results, s'') \<Rightarrow> ((groupId, result) # results, s'')))"

definition failures :: "(string \<times> error option) list \<Rightarrow> error list" where
  "failures results =
     concat (map (\<lambda>(groupId, result). case result of None \<Rightarrow> [] | Some err \<Rightarrow> [err]) results)"

definition succeeded :: "(string \<times> error option) list \<Rightarrow> string list" where
  "succeeded results =
     concat (map (\<lambda>(groupId, result). case result of None \<Rightarrow> [groupId] | Some err \<Rightarrow> []) results)"




section \<open>The consume goroutine of the factory\<close>

text \<open>
  The goroutine that the factory starts for a consumer group, and the channel it sends
  on:
  \<^verbatim>\<open>
  errorCh := make(chan error, 10)
  ...
  go func() {
      defer func() { close(errorCh); releasedCh <- true }()
      for {
          consumerHandler := NewConsumerHandler(logger, handler, errorCh, options...)
          consumeErr := manager.Consume(groupID, ctx, topics, &consumerHandler)
          if consumeErr == sarama.ErrClosedConsumerGroup { return }
          if consumeErr != nil { errorCh <- consumeErr }
          select { case <-ctx.Done(): return; default: }
      }
  }()
  \<close>
  The loop is embedded as a transition system. The loop is in a call of
  \<^verbatim>\<open>manager.Consume\<close> (\<open>At_Consume\<close>), or at the send of an error on \<^verbatim>\<open>errorCh\<close>
  (\<open>At_send e\<close>), or at the \<^verbatim>\<open>select\<close> (\<open>At_select\<close>), or it has returned. \<open>errorCh\<close> is what
  the channel holds, oldest first; it holds at most ten values, and a send on it waits
  while it is full. \<open>loop_sent\<close> lists the errors the sends of the loop have put on the
  channel and \<open>consumed\<close> the results of the \<^verbatim>\<open>Consume\<close> calls that have returned, both in
  order; \<open>ctx_done\<close> says whether the context has been cancelled.
\<close>

datatype consume_pc = At_Consume | At_send error | At_select | Loop_returned

record consume_loop =
  loop :: consume_pc
  errorCh :: "error list"
  loop_sent :: "error list"
  consumed :: "error option list"
  ctx_done :: bool

text \<open>
  The steps:
  \<^item> \<open>Consume_returns consumeErr\<close>: the call of \<^verbatim>\<open>manager.Consume\<close> returns; the loop
    returns on the closed-group sentinel, goes to the send on any other error and to
    the \<^verbatim>\<open>select\<close> on \<^verbatim>\<open>nil\<close>;
  \<^item> \<open>Loop_sends\<close>: the send \<^verbatim>\<open>errorCh <- consumeErr\<close> completes, which it can only while
    the channel holds fewer than ten values; the send is no case of a \<^verbatim>\<open>select\<close>, so
    nothing else ends the wait;
  \<^item> \<open>Loop_selects\<close>: the \<^verbatim>\<open>select\<close> returns from the loop when the context is done and
    otherwise falls through to the next call of \<^verbatim>\<open>Consume\<close>;
  \<^item> \<open>Ctx_is_cancelled\<close>: the context is cancelled;
  \<^item> \<open>Other_sends e\<close>: the consumer handler, created with the same channel, sends on it;
  \<^item> \<open>Reader_receives\<close>: a reader receives the oldest value of the channel.
  A step that is not enabled in a state gives \<open>None\<close>; a schedule is a list of steps.
\<close>

datatype consume_action =
    Consume_returns "error option"
  | Loop_sends
  | Loop_selects
  | Ctx_is_cancelled
  | Other_sends error
  | Reader_receives

definition errorCh_capacity :: nat where
  "errorCh_capacity = 10"

definition consume_started :: consume_loop where
  "consume_started =
     \<lparr>loop = At_Consume, errorCh = [], loop_sent = [], consumed = [], ctx_done = False\<rparr>"

fun consume_step :: "consume_action \<Rightarrow> consume_loop \<Rightarrow> consume_loop option" where
  "consume_step (Consume_returns consumeErr) s =
     (if loop s = At_Consume
      then Some (s\<lparr>consumed := consumed s @ [consumeErr],
                   loop := (if consumeErr = Some ErrClosedConsumerGroup then Loop_returned
                            else (case consumeErr of
                                    None \<Rightarrow> At_select
                                  | Some e \<Rightarrow> At_send e))\<rparr>)
      else None)"
| "consume_step Loop_sends s =
     (case loop s of
        At_send e \<Rightarrow>
          (if length (errorCh s) < errorCh_capacity
           then Some (s\<lparr>loop := At_select,
                        errorCh := errorCh s @ [e],
                        loop_sent := loop_sent s @ [e]\<rparr>)
           else None)
      | _ \<Rightarrow> None)"
| "consume_step Loop_selects s =
     (if loop s = At_select
      then Some (s\<lparr>loop := (if ctx_done s then Loop_returned else At_Consume)\<rparr>)
      else None)"
| "consume_step Ctx_is_cancelled s = Some (s\<lparr>ctx_done := True\<rparr>)"
| "consume_step (Other_sends e) s =
     (if length (errorCh s) < errorCh_capacity
      then Some (s\<lparr>errorCh := errorCh s @ [e]\<rparr>)
      else None)"
| "consume_step Reader_receives s =
     (case errorCh s of
        [] \<Rightarrow> None
      | e # rest \<Rightarrow> Some (s\<lparr>errorCh := rest\<rparr>))"

fun consume_run :: "consume_action list \<Rightarrow> consume_loop \<Rightarrow> consume_loop option" where
  "consume_run [] s = Some s"
| "consume_run (a # as) s =
     (case consume_step a s of None \<Rightarrow> None | Some s' \<Rightarrow> consume_run as s')"

text \<open>
  The error the loop is sending, the error a result of \<^verbatim>\<open>Consume\<close> is to forward (none
  for \<^verbatim>\<open>nil\<close> and for the sentinel), and the invariant of the system.
\<close>

fun sending :: "consume_pc \<Rightarrow> error list" where
  "sending (At_send e) = [e]"
| "sending pc = []"

definition forwarded :: "error option \<Rightarrow> error list" where
  "forwarded consumeErr =
     (case consumeErr of
        None \<Rightarrow> []
      | Some e \<Rightarrow> (if e = ErrClosedConsumerGroup then [] else [e]))"

definition consume_inv :: "consume_loop \<Rightarrow> bool" where
  "consume_inv s \<longleftrightarrow>
     loop_sent s @ sending (loop s) = concat (map forwarded (consumed s))
   \<and> length (errorCh s) \<le> errorCh_capacity"

text \<open>
  A run without a reader: ten times \<^verbatim>\<open>Consume\<close> returns the error \<open>e\<close>, which the loop
  sends before it calls \<^verbatim>\<open>Consume\<close> again, and then \<^verbatim>\<open>Consume\<close> returns the error
  \<open>e11\<close>. \<open>stopped_at_e11\<close> is the state this run ends in.
\<close>

definition eleven_errors :: "consume_action list" where
  "eleven_errors =
     concat (replicate 10 [Consume_returns (Some (OtherError ''e'')), Loop_sends, Loop_selects])
     @ [Consume_returns (Some (OtherError ''e11''))]"

definition stopped_at_e11 :: consume_loop where
  "stopped_at_e11 =
     \<lparr>loop = At_send (OtherError ''e11''),
      errorCh = replicate 10 (OtherError ''e''),
      loop_sent = replicate 10 (OtherError ''e''),
      consumed = replicate 10 (Some (OtherError ''e'')) @ [Some (OtherError ''e11'')],
      ctx_done = False\<rparr>"

section \<open>Close of the custom consumer group and the goroutine\<close>

text \<open>
  \<^verbatim>\<open>customConsumerGroup.Close\<close> runs concurrently with the consume goroutine:
  \<^verbatim>\<open>
  func (c *customConsumerGroup) Close() error {
      c.cancel()
      <-c.releasedCh
      return c.ConsumerGroup.Close()
  }
  \<close>
  The two are embedded as a transition system. The goroutine is in its loop, or in its
  deferred function before \<^verbatim>\<open>close(errorCh)\<close>, or before \<^verbatim>\<open>releasedCh <- true\<close>, or it has
  exited. Every call of \<^verbatim>\<open>Close\<close> is before \<^verbatim>\<open>c.cancel()\<close>, or before the receive from
  \<^verbatim>\<open>releasedCh\<close>, or before \<^verbatim>\<open>c.ConsumerGroup.Close()\<close>, or it has returned with the error
  of the latter. Calls of \<^verbatim>\<open>Close\<close> are numbered in the order they are made. The history
  records what has happened, in order.
\<close>

datatype goroutine_pc = Looping | Defer_close_errorCh | Defer_send_released | Exited

datatype Close_pc = At_cancel | At_receive_released | At_underlying_Close | Returned "error option"

datatype Close_event =
    Cancelled nat
  | ErrorCh_closed
  | Released nat
  | Underlying_Close nat
  | Close_returned nat

record customConsumerGroup =
  goroutine :: goroutine_pc
  ctx_cancelled :: bool
  handlerErrorChannel_closed :: bool
  Close_calls :: "Close_pc list"
  history :: "Close_event list"

text \<open>
  The steps:
  \<^item> \<open>Close_is_called\<close>: another call of \<^verbatim>\<open>Close\<close> begins;
  \<^item> \<open>Does_cancel i\<close>: call \<open>i\<close> runs \<^verbatim>\<open>c.cancel()\<close>;
  \<^item> \<open>Consume_returns_closed\<close>: \<^verbatim>\<open>manager.Consume\<close> returns the closed-group sentinel and
    the loop returns; \<open>Sees_ctx_done\<close>: the \<^verbatim>\<open>select\<close> finds the context cancelled and the
    loop returns. Rounds after which the loop calls \<^verbatim>\<open>Consume\<close> again leave the
    goroutine in its loop and are no step of their own;
  \<^item> \<open>Does_close_errorCh\<close>: the deferred function runs \<^verbatim>\<open>close(errorCh)\<close>;
  \<^item> \<open>Does_release i\<close>: \<^verbatim>\<open>releasedCh\<close> is unbuffered, so the send of the deferred function
    and the receive of call \<open>i\<close> happen together; nothing is left for the goroutine to
    do afterwards;
  \<^item> \<open>Underlying_Close_returns i err\<close>: call \<open>i\<close> invokes \<^verbatim>\<open>c.ConsumerGroup.Close()\<close>,
    which returns \<open>err\<close>, and returns it.
  A step that is not enabled in a state gives \<open>None\<close>; a schedule is a list of steps.
\<close>

datatype Close_action =
    Close_is_called
  | Does_cancel nat
  | Consume_returns_closed
  | Sees_ctx_done
  | Does_close_errorCh
  | Does_release nat
  | Underlying_Close_returns nat "error option"

definition started :: customConsumerGroup where
  "started =
     \<lparr>goroutine = Looping, ctx_cancelled = False, handlerErrorChannel_closed = False,
      Close_calls = [], history = []\<rparr>"

fun Close_step :: "Close_action \<Rightarrow> customConsumerGroup \<Rightarrow> customConsumerGroup option" where
  "Close_step Close_is_called s = Some (s\<lparr>Close_calls := Close_calls s @ [At_cancel]\<rparr>)"
| "Close_step (Does_cancel i) s =
     (if i < length (Close_calls s) \<and> Close_calls s ! i = At_cancel
      then Some (s\<lparr>ctx_cancelled := True,
                   Close_calls := (Close_calls s)[i := At_receive_released],
                   history := history s @ [Cancelled i]\<rparr>)
      else None)"
| "Close_step Consume_returns_closed s =
     (if goroutine s = Looping then Some (s\<lparr>goroutine := Defer_close_errorCh\<rparr>) else None)"
| "Close_step Sees_ctx_done s =
     (if goroutine s = Looping \<and> ctx_cancelled s
      then Some (s\<lparr>goroutine := Defer_close_errorCh\<rparr>)
      else None)"
| "Close_step Does_close_errorCh s =
     (if goroutine s = Defer_close_errorCh
      then Some (s\<lparr>goroutine := Defer_send_released,
                   handlerErrorChannel_closed := True,
                   history := history s @ [ErrorCh_closed]\<rparr>)
      else None)"
| "Close_step (Does_release i) s =
     (if goroutine s = Defer_send_released
         \<and> i < length (Close_calls s) \<and> Close_calls s ! i = At_receive_released
      then Some (s\<lparr>goroutine := Exited,
                   Close_calls := (Close_calls s)[i := At_underlying_Close],
                   history := history s @ [Released i]\<rparr>)
      else None)"
| "Close_step (Underlying_Close_returns i err) s =
     (if i < length (Close_calls s) \<and> Close_calls s ! i = At_underlying_Close
      then Some (s\<lparr>Close_calls := (Close_calls s)[i := Returned err],
                   history := history s @ [Underlying_Close i, Close_returned i]\<rparr>)
      else None)"

fun Close_run :: "Close_action list \<Rightarrow> customConsumerGroup \<Rightarrow> customConsumerGroup option" where
  "Close_run [] s = Some s"
| "Close_run (a # as) s = (case Close_step a s of None \<Rightarrow> None | Some s' \<Rightarrow> Close_run as s')"

text \<open>
  The invariant of the system: once the goroutine is past \<^verbatim>\<open>close(errorCh)\<close> the channel
  is closed; a call of \<^verbatim>\<open>Close\<close> that is past its receive has received from the exited
  goroutine; and in the history the closing of the channel precedes every release and
  every event of a call after its release.
\<close>

definition past_receive :: "Close_pc \<Rightarrow> bool" where
  "past_receive pc = (pc \<noteq> At_cancel \<and> pc \<noteq> At_receive_released)"

fun after_exit :: "Close_event \<Rightarrow> bool" where
  "after_exit (Released i) = True"
| "after_exit (Underlying_Close i) = True"
| "after_exit (Close_returned i) = True"
| "after_exit e = False"

fun after_release :: "nat \<Rightarrow> Close_event \<Rightarrow> bool" where
  "after_release i (Underlying_Close j) = (i = j)"
| "after_release i (Close_returned j) = (i = j)"
| "after_release i e = False"

definition closed_before :: "Close_event list \<Rightarrow> bool" where
  "closed_before h \<longleftrightarrow>
     (\<forall>pre e post. h = pre @ e # post \<longrightarrow> after_exit e \<longrightarrow> ErrorCh_closed \<in> set pre)"

definition released_before :: "Close_event list \<Rightarrow> bool" where
  "released_before h \<longleftrightarrow>
     (\<forall>pre e post i. h = pre @ e # post \<longrightarrow> after_release i e \<longrightarrow> Released i \<in> set pre)"

definition Close_inv :: "customConsumerGroup \<Rightarrow> bool" where
  "Close_inv s \<longleftrightarrow>
     ((goroutine s = Defer_send_released \<or> goroutine s = Exited) \<longrightarrow>
        handlerErrorChannel_closed s \<and> ErrorCh_closed \<in> set (history s))
   \<and> (\<forall>i < length (Close_calls s). past_receive (Close_calls s ! i) \<longrightarrow>
        goroutine s = Exited \<and> Released i \<in> set (history s))
   \<and> closed_before (history s)
   \<and> released_before (history s)"

section \<open>Merging error channels\<close>

text \<open>
  \<^verbatim>\<open>mergeErrorChannels\<close> starts one goroutine for each input channel and one that closes
  the output:
  \<^verbatim>\<open>
  out := make(chan error)
  var wg sync.WaitGroup
  wg.Add(len(channels))
  for _, channel := range channels {
      go func(c <-chan error) {
          for v := range c { out <- v }
          wg.Done()
      }(channel)
  }
  go func() { wg.Wait(); close(out) }()
  return out
  \<close>
  It is embedded as a transition system over the input channels \<open>0, ..., channels - 1\<close>.
  For input \<open>i\<close>, \<open>sent_on\<close> is everything sent on it so far, \<open>pending\<close> what has been
  sent and not yet received by its goroutine, and \<open>closed\<close> whether it has been closed.
  The goroutine of an input is at its \<^verbatim>\<open>range\<close> (\<open>Ranging\<close>), or holds a value it is
  sending on \<open>out\<close> (\<open>Sending v\<close>), or has called \<^verbatim>\<open>wg.Done()\<close> and ended (\<open>Done\<close>). \<open>wg\<close>
  is the counter of the wait group, \<open>waiter\<close> the last goroutine, \<open>out_closes\<close> how
  often \<^verbatim>\<open>close(out)\<close> has run, \<open>out_panics\<close> how often a send on a closed \<open>out\<close> was
  attempted, and \<open>yielded\<close> the values the reader of \<open>out\<close> has received, each with the
  input it came from.

  The steps:
  \<^item> \<open>Input_sends i v\<close> and \<open>Input_closes i\<close>: the owner of input \<open>i\<close> sends a value on
    it or closes it (it does neither on a closed channel);
  \<^item> \<open>Forwarder_receives i\<close>: the \<^verbatim>\<open>range\<close> of goroutine \<open>i\<close> receives the next pending
    value; with nothing pending it ends if the channel is closed, and the goroutine
    calls \<^verbatim>\<open>wg.Done()\<close>; otherwise it blocks;
  \<^item> \<open>Out_yields i\<close>: \<open>out\<close> is unbuffered, so the send of goroutine \<open>i\<close> and the receive
    of the reader happen together;
  \<^item> \<open>Waiter_closes_out\<close>: \<^verbatim>\<open>wg.Wait()\<close> returns with the counter at zero, and
    \<^verbatim>\<open>close(out)\<close> runs.
\<close>

datatype forwarder_pc = Ranging | Sending error | Done

datatype waiter_pc = Waiting | Finished

record merge =
  channels :: nat
  sent_on :: "nat \<Rightarrow> error list"
  pending :: "nat \<Rightarrow> error list"
  closed :: "nat \<Rightarrow> bool"
  forwarder :: "nat \<Rightarrow> forwarder_pc"
  wg :: int
  waiter :: waiter_pc
  out_closes :: nat
  out_panics :: nat
  yielded :: "(nat \<times> error) list"






definition yielded_from :: "nat \<Rightarrow> merge \<Rightarrow> error list" where
  "yielded_from i s = map snd (filter (\<lambda>(j, v). j = i) (yielded s))"

definition live :: "merge \<Rightarrow> nat set" where
  "live s = {i. i < channels s \<and> forwarder s i \<noteq> Done}"






section \<open>A managed group after the specification\<close>

text \<open>
  Modelled from the spec: the managed group (\<^verbatim>\<open>managedGroup\<close>, \<^verbatim>\<open>createManagedGroup\<close>)
  is not among the sources. This instance follows section 4.2: the state machine
  Running, Stopped, Closed with the current session, and the lock token of the lock
  discipline (a conflicting token fails; the bounded wait is not modelled). The
  theorems below hold for every collaborator; this instance supplies the concrete
  inputs at which they are evaluated.
\<close>

datatype groupState = Running | Stopped | Closed

record specManagedGroup =
  current_session :: "consumerGroup option"
  state :: groupState
  lock_token :: "string option"

definition spec_createManagedGroup :: "consumerGroup \<Rightarrow> specManagedGroup" where
  "spec_createManagedGroup session =
     \<lparr>current_session = Some session, state = Running, lock_token = None\<rparr>"

definition spec_processLock ::
  "commandLock option \<Rightarrow> bool \<Rightarrow> specManagedGroup \<Rightarrow> error option \<times> specManagedGroup" where
  "spec_processLock lock isBefore g =
     (case lock of
        None \<Rightarrow> (None, g)
      | Some l \<Rightarrow>
          (if isBefore then
             (if LockBefore l then
                (case lock_token g of
                   None \<Rightarrow> (None, g\<lparr>lock_token := Some (Token l)\<rparr>)
                 | Some t \<Rightarrow>
                     (if t = Token l then (None, g) else (Some (OtherError ''LockConflict''), g)))
              else (None, g))
           else (if UnlockAfter l then (None, g\<lparr>lock_token := None\<rparr>) else (None, g))))"

definition spec_stop :: "specManagedGroup \<Rightarrow> error option \<times> specManagedGroup" where
  "spec_stop g =
     (if state g = Running then (None, g\<lparr>current_session := None, state := Stopped\<rparr>)
      else (Some (OtherError ''stop: group is not running''), g))"

definition spec_start :: "consumerGroup \<Rightarrow> specManagedGroup \<Rightarrow> specManagedGroup" where
  "spec_start session g =
     (if state g = Stopped then g\<lparr>current_session := Some session, state := Running\<rparr> else g)"

definition spec_close :: "specManagedGroup \<Rightarrow> error option \<times> specManagedGroup" where
  "spec_close g =
     (if state g = Closed then (Some (OtherError ''close: group is closed''), g)
      else (None, g\<lparr>current_session := None, state := Closed\<rparr>))"

text \<open>A Sarama constructor that refuses the group id \<open>g3\<close> and otherwise returns a
  session not returned before (numbered by the calls made so far).\<close>

definition spec_newConsumerGroup ::
  "call list \<Rightarrow> string list \<Rightarrow> string \<Rightarrow> saramaConfig \<Rightarrow> error + consumerGroup" where
  "spec_newConsumerGroup made brokers groupId cfg =
     (if groupId = ''g3'' then Inl (OtherError ''FactoryFailed'')
      else Inr (ConsumerGroup (length made)))"

definition spec_env :: "specManagedGroup collaborators" where
  "spec_env =
     \<lparr>newConsumerGroup = spec_newConsumerGroup,
      createManagedGroup = spec_createManagedGroup,
      processLock = spec_processLock,
      stop = spec_stop,
      start = spec_start,
      close = spec_close\<rparr>"

text \<open>A manager configured for the broker \<open>b0\<close> in which the group \<open>g1\<close> has been
  started on the topic \<open>t\<close>: one running group, and the three calls its start made.\<close>

definition manager_g1 :: "specManagedGroup kafkaConsumerGroupManagerImpl" where
  "manager_g1 =
     \<lparr>factory = \<lparr>addrs = [''b0''], config = SaramaConfig 0\<rparr>,
      groups = [''g1'' \<mapsto> spec_createManagedGroup (ConsumerGroup 0)],
      calls = [Call_newConsumerGroup [''b0''] ''g1'' (SaramaConfig 0),
               Call_startExistingConsumerGroup ''g1'' (ConsumerGroup 0) [''t''],
               Call_createManagedGroup ''g1'' (ConsumerGroup 0)]\<rparr>"

text \<open>A manager with two running groups and no calls made yet: \<open>g1\<close> is unlocked,
  \<open>g2\<close> is locked by the token \<open>X\<close> of an external controller.\<close>

definition manager_g1_g2 :: "specManagedGroup kafkaConsumerGroupManagerImpl" where
  "manager_g1_g2 =
     \<lparr>factory = \<lparr>addrs = [''b0''], config = SaramaConfig 0\<rparr>,
      groups = [''g1'' \<mapsto> spec_createManagedGroup (ConsumerGroup 0),
                ''g2'' \<mapsto> (spec_createManagedGroup (ConsumerGroup 1))\<lparr>lock_token := Some ''X''\<rparr>],
      calls = []\<rparr>"

section \<open>Operations on a group that is not registered\<close>

text \<open>
  C7. For a group id that is not in the registry, \<^verbatim>\<open>CloseConsumerGroup(groupId)\<close> and
  \<^verbatim>\<open>stopConsumerGroup(lock, groupId)\<close> each return their not-managed error (the
  \<^verbatim>\<open>fmt.Errorf\<close> message naming the group id), and the manager afterwards is the
  manager before: the registry, every managed group, the factory and the calls made
  on collaborators are unchanged.
\<close>

theorem not_managed_close_and_stop:
  assumes "getGroup m groupId = None"
  shows "CloseConsumerGroup env groupId m = (Some (CloseNotManaged groupId), m)
       \<and> stopConsumerGroup env lock groupId m = (Some (StopNotManaged groupId), m)"
  using assms by (simp add: CloseConsumerGroup_def stopConsumerGroup_def lockBefore_def)

theorem not_managed_close_and_stop_witness:
  "getGroup manager_g1 ''g2'' = None
   \<and> CloseConsumerGroup spec_env ''g2'' manager_g1 = (Some (CloseNotManaged ''g2''), manager_g1)
   \<and> stopConsumerGroup spec_env (Some \<lparr>Token = ''T'', LockBefore = True, UnlockAfter = False\<rparr>)
        ''g2'' manager_g1 = (Some (StopNotManaged ''g2''), manager_g1)"
proof -
  have absent: "getGroup manager_g1 ''g2'' = None"
    by (simp add: getGroup_def manager_g1_def)
  show ?thesis
    using absent not_managed_close_and_stop [OF absent] by simp
qed

text \<open>
  C8. For every command lock (also the \<^verbatim>\<open>nil\<close> pointer) and every group id that is not
  in the registry, \<^verbatim>\<open>lockBefore\<close> and \<^verbatim>\<open>unlockAfter\<close> return \<^verbatim>\<open>nil\<close> and leave the
  manager as it was: nothing is locked and no collaborator is called.
\<close>

theorem lock_helpers_absent_group:
  assumes "getGroup m groupId = None"
  shows "lockBefore env lock groupId m = (None, m) \<and> unlockAfter env lock groupId m = (None, m)"
  using assms by (simp add: lockBefore_def unlockAfter_def)

theorem lock_helpers_absent_group_witness:
  "getGroup manager_g1 ''g2'' = None
   \<and> lockBefore spec_env (Some \<lparr>Token = ''T'', LockBefore = True, UnlockAfter = True\<rparr>)
        ''g2'' manager_g1 = (None, manager_g1)
   \<and> unlockAfter spec_env (Some \<lparr>Token = ''T'', LockBefore = True, UnlockAfter = True\<rparr>)
        ''g2'' manager_g1 = (None, manager_g1)"
proof -
  have absent: "getGroup manager_g1 ''g2'' = None"
    by (simp add: getGroup_def manager_g1_def)
  show ?thesis
    using absent lock_helpers_absent_group [OF absent] by simp
qed

section \<open>Starting a group\<close>

text \<open>
  C6. When the factory fails to create the Sarama group during
  \<^verbatim>\<open>StartConsumerGroup\<close>, the error of the factory is returned as it is, and nothing
  else happens: the registry and the factory are as before, so \<^verbatim>\<open>IsManaged\<close> answers
  as before for every id (it stays false for an id that was not managed), and the only
  call made is the failed \<^verbatim>\<open>newConsumerGroup\<close>: no consume goroutine with its handler
  error channel is started and no managed group with its persistent error channel is
  created.
\<close>

theorem StartConsumerGroup_factory_failed:
  assumes "newConsumerGroup env (calls m) (addrs (factory m)) groupId (config (factory m)) = Inl err"
  shows "\<exists>m'. StartConsumerGroup env groupId topics m = (Some err, m')
            \<and> groups m' = groups m
            \<and> factory m' = factory m
            \<and> (\<forall>g. IsManaged m' g = IsManaged m g)
            \<and> calls m' = calls m @ [Call_newConsumerGroup (addrs (factory m)) groupId (config (factory m))]"
  using assms
  by (simp add: StartConsumerGroup_def createConsumerGroup_def IsManaged_def getGroup_def)

theorem StartConsumerGroup_factory_failed_witness:
  "newConsumerGroup spec_env (calls manager_g1) (addrs (factory manager_g1)) ''g3''
      (config (factory manager_g1)) = Inl (OtherError ''FactoryFailed'')
   \<and> fst (StartConsumerGroup spec_env ''g3'' [''t''] manager_g1) = Some (OtherError ''FactoryFailed'')
   \<and> \<not> IsManaged manager_g1 ''g3''
   \<and> \<not> IsManaged (snd (StartConsumerGroup spec_env ''g3'' [''t''] manager_g1)) ''g3''"
proof -
  have failing: "newConsumerGroup spec_env (calls manager_g1) (addrs (factory manager_g1)) ''g3''
      (config (factory manager_g1)) = Inl (OtherError ''FactoryFailed'')"
    by (simp add: spec_env_def spec_newConsumerGroup_def)
  have unmanaged: "\<not> IsManaged manager_g1 ''g3''"
    by (simp add: IsManaged_def getGroup_def manager_g1_def)
  from StartConsumerGroup_factory_failed [OF failing, of "[''t'']"] unmanaged
  have "fst (StartConsumerGroup spec_env ''g3'' [''t''] manager_g1) = Some (OtherError ''FactoryFailed'')
      \<and> \<not> IsManaged (snd (StartConsumerGroup spec_env ''g3'' [''t''] manager_g1)) ''g3''"
    by auto
  with failing unmanaged show ?thesis by simp
qed

text \<open>
  C1, as the code has it. \<^verbatim>\<open>StartConsumerGroup\<close> does not look the group id up before
  it registers: whenever the factory creates the Sarama group, it returns \<^verbatim>\<open>nil\<close> and
  stores the newly created managed group under the id, whether or not a group is
  registered there. A group already registered under the id is replaced; every other
  entry of the registry is unchanged.
\<close>

theorem StartConsumerGroup_registers:
  assumes "newConsumerGroup env (calls m) (addrs (factory m)) groupId (config (factory m)) = Inr grp"
  shows "fst (StartConsumerGroup env groupId topics m) = None
       \<and> groups (snd (StartConsumerGroup env groupId topics m)) =
           (groups m)(groupId \<mapsto> createManagedGroup env grp)"
  using assms
  by (simp add: StartConsumerGroup_def createConsumerGroup_def setGroup_def Let_def)

theorem StartConsumerGroup_registers_witness:
  "newConsumerGroup spec_env (calls manager_g1) (addrs (factory manager_g1)) ''g1''
      (config (factory manager_g1)) = Inr (ConsumerGroup 3)
   \<and> fst (StartConsumerGroup spec_env ''g1'' [''t''] manager_g1) = None
   \<and> groups (snd (StartConsumerGroup spec_env ''g1'' [''t''] manager_g1)) =
       (groups manager_g1)(''g1'' \<mapsto> createManagedGroup spec_env (ConsumerGroup 3))"
proof -
  have created: "newConsumerGroup spec_env (calls manager_g1) (addrs (factory manager_g1)) ''g1''
      (config (factory manager_g1)) = Inr (ConsumerGroup 3)"
    by (simp add: spec_env_def spec_newConsumerGroup_def manager_g1_def)
  show ?thesis
    using created StartConsumerGroup_registers [OF created, of "[''t'']"] by simp
qed

text \<open>
  The claim as the specification words it fails: with \<open>g1\<close> registered and running,
  starting \<open>g1\<close> again returns \<^verbatim>\<open>nil\<close>, and the registry then holds another managed
  group under \<open>g1\<close>.
\<close>

theorem StartConsumerGroup_already_managed_counterexample:
  "IsManaged manager_g1 ''g1''
   \<and> fst (StartConsumerGroup spec_env ''g1'' [''t''] manager_g1) = None
   \<and> getGroup manager_g1 ''g1'' = Some (spec_createManagedGroup (ConsumerGroup 0))
   \<and> getGroup (snd (StartConsumerGroup spec_env ''g1'' [''t''] manager_g1)) ''g1'' =
       Some (spec_createManagedGroup (ConsumerGroup 3))
   \<and> groups (snd (StartConsumerGroup spec_env ''g1'' [''t''] manager_g1)) \<noteq> groups manager_g1"
proof -
  have new_entry: "getGroup (snd (StartConsumerGroup spec_env ''g1'' [''t''] manager_g1)) ''g1'' =
       Some (spec_createManagedGroup (ConsumerGroup 3))"
    by (simp add: StartConsumerGroup_def createConsumerGroup_def setGroup_def getGroup_def
        Let_def spec_env_def spec_newConsumerGroup_def manager_g1_def numeral_3_eq_3)
  have old_entry: "getGroup manager_g1 ''g1'' = Some (spec_createManagedGroup (ConsumerGroup 0))"
    by (simp add: getGroup_def manager_g1_def)
  have differ: "spec_createManagedGroup (ConsumerGroup 3) \<noteq> spec_createManagedGroup (ConsumerGroup 0)"
    by (simp add: spec_createManagedGroup_def)
  have changed: "groups (snd (StartConsumerGroup spec_env ''g1'' [''t''] manager_g1)) \<noteq> groups manager_g1"
  proof
    assume "groups (snd (StartConsumerGroup spec_env ''g1'' [''t''] manager_g1)) = groups manager_g1"
    then have "getGroup (snd (StartConsumerGroup spec_env ''g1'' [''t''] manager_g1)) ''g1'' =
         getGroup manager_g1 ''g1''"
      by (simp add: getGroup_def)
    with new_entry old_entry differ show False by simp
  qed
  have no_error: "fst (StartConsumerGroup spec_env ''g1'' [''t''] manager_g1) = None"
    by (simp add: StartConsumerGroup_def createConsumerGroup_def Let_def spec_env_def
        spec_newConsumerGroup_def manager_g1_def)
  have managed: "IsManaged manager_g1 ''g1''"
    by (simp add: IsManaged_def old_entry)
  from managed no_error old_entry new_entry changed show ?thesis by simp
qed

section \<open>Control commands\<close>

text \<open>
  C5. For every message of an asynchronous control command and every group function:
  \<^item> when the parsed command is not a \<^verbatim>\<open>ConsumerGroupAsyncCommand\<close>, no reply is sent and
    the state is untouched, whatever the group function is: it is not invoked;
  \<^item> when the version of the command differs from the compiled-in version, the only
    reply is \<^verbatim>\<open>NotifyFailed\<close> with the version-mismatch error, and again the state is
    untouched whatever the group function is;
  \<^item> otherwise the group function is applied to the lock and the group id of the
    command, and the only reply is \<^verbatim>\<open>NotifySuccess\<close> when it returns \<^verbatim>\<open>nil\<close> and
    \<^verbatim>\<open>NotifyFailed\<close> with its error otherwise.
\<close>

theorem processAsyncGroupNotification_replies:
  "processAsyncGroupNotification v None groupFunction s = ([], s)
   \<and> (Version cmd \<noteq> v \<longrightarrow>
        processAsyncGroupNotification v (Some cmd) groupFunction s =
          ([NotifyFailed (VersionMismatch v (Version cmd))], s))
   \<and> (Version cmd = v \<longrightarrow>
        processAsyncGroupNotification v (Some cmd) groupFunction s =
          (case groupFunction (Lock cmd) (GroupId cmd) s of
             (None, s') \<Rightarrow> ([NotifySuccess], s')
           | (Some err, s') \<Rightarrow> ([NotifyFailed err], s')))"
  by (simp add: processAsyncGroupNotification_def split: prod.splits option.splits)

theorem processAsyncGroupNotification_replies_witness:
  "(0::16 word) \<noteq> 1
   \<and> processAsyncGroupNotification 1
        (Some \<lparr>Version = 0, GroupId = ''g1'', Lock = None\<rparr>)
        (stopConsumerGroup spec_env) manager_g1
       = ([NotifyFailed (VersionMismatch 1 0)], manager_g1)
   \<and> fst (processAsyncGroupNotification 1
        (Some \<lparr>Version = 1, GroupId = ''g1'', Lock = None\<rparr>)
        (stopConsumerGroup spec_env) manager_g1) = [NotifySuccess]
   \<and> fst (processAsyncGroupNotification 1
        (Some \<lparr>Version = 1, GroupId = ''g2'', Lock = None\<rparr>)
        (stopConsumerGroup spec_env) manager_g1) = [NotifyFailed (StopNotManaged ''g2'')]"
proof -
  have stop_g1: "fst (stopConsumerGroup spec_env None ''g1'' manager_g1) = None"
    by (simp add: stopConsumerGroup_def lockBefore_def unlockAfter_def getGroup_def called_def
        spec_env_def spec_processLock_def spec_stop_def spec_createManagedGroup_def manager_g1_def)
  have stop_g2: "stopConsumerGroup spec_env None ''g2'' manager_g1 = (Some (StopNotManaged ''g2''), manager_g1)"
    by (simp add: stopConsumerGroup_def lockBefore_def getGroup_def manager_g1_def)
  from processAsyncGroupNotification_replies
         [of 1 "stopConsumerGroup spec_env" manager_g1 "\<lparr>Version = 0, GroupId = ''g1'', Lock = None\<rparr>"]
  have mismatch: "processAsyncGroupNotification 1
        (Some \<lparr>Version = 0, GroupId = ''g1'', Lock = None\<rparr>)
        (stopConsumerGroup spec_env) manager_g1
       = ([NotifyFailed (VersionMismatch 1 0)], manager_g1)"
    by simp
  from processAsyncGroupNotification_replies
         [of 1 "stopConsumerGroup spec_env" manager_g1 "\<lparr>Version = 1, GroupId = ''g1'', Lock = None\<rparr>"]
       stop_g1
  have success: "fst (processAsyncGroupNotification 1
        (Some \<lparr>Version = 1, GroupId = ''g1'', Lock = None\<rparr>)
        (stopConsumerGroup spec_env) manager_g1) = [NotifySuccess]"
    by (simp split: prod.splits option.splits)
  from processAsyncGroupNotification_replies
         [of 1 "stopConsumerGroup spec_env" manager_g1 "\<lparr>Version = 1, GroupId = ''g2'', Lock = None\<rparr>"]
       stop_g2
  have failed: "fst (processAsyncGroupNotification 1
        (Some \<lparr>Version = 1, GroupId = ''g2'', Lock = None\<rparr>)
        (stopConsumerGroup spec_env) manager_g1) = [NotifyFailed (StopNotManaged ''g2'')]"
    by simp
  from mismatch success failed show ?thesis by simp
qed

section \<open>Reconfigure: stops, then the new factory, then starts\<close>

subsection \<open>The combined error\<close>

lemma multierr_Errors_Append:
  "multierr_Errors (multierr_Append l r) = multierr_Errors l @ multierr_Errors r"
  by (cases l; cases r) (simp_all add: multierr_Errors_def)

lemma multierr_Errors_foldl:
  "multierr_Errors (foldl multierr_AppendInto acc es) =
     multierr_Errors acc @ concat (map multierr_errors es)"
  by (induction es arbitrary: acc)
     (simp_all add: multierr_AppendInto_def multierr_Errors_Append, simp add: multierr_Errors_def)

lemma multierr_foldl_None:
  "foldl multierr_AppendInto acc es = None \<longleftrightarrow> acc = None \<and> es = []"
proof (induction es arbitrary: acc)
  case Nil show ?case by simp
next
  case (Cons e es)
  have "multierr_AppendInto acc e \<noteq> None"
    by (cases acc) (simp_all add: multierr_AppendInto_def)
  with Cons show ?case by simp
qed

subsection \<open>The loops attempt every group\<close>

lemma stop_loop_attempt_each:
  "Reconfigure_stop_loop env gs multiErr restart m =
     (case attempt_each (stopConsumerGroup env (Some stopLock)) gs m of
        (results, m1) \<Rightarrow>
          (foldl multierr_AppendInto multiErr (failures results), restart @ succeeded results, m1))"
proof (induction gs arbitrary: multiErr restart m)
  case Nil show ?case by (simp add: failures_def succeeded_def)
next
  case (Cons g gs)
  show ?case
    by (simp add: Cons failures_def succeeded_def split: prod.splits option.splits)
qed

lemma start_loop_attempt_each:
  "Reconfigure_start_loop env gs multiErr m =
     (case attempt_each (startConsumerGroup env (Some startLock)) gs m of
        (results, m1) \<Rightarrow> (foldl multierr_AppendInto multiErr (failures results), m1))"
proof (induction gs arbitrary: multiErr m)
  case Nil show ?case by (simp add: failures_def)
next
  case (Cons g gs)
  show ?case
    by (simp add: Cons failures_def split: prod.splits option.splits)
qed

lemma attempt_each_groupIds: "map fst (fst (attempt_each operation gs s)) = gs"
  by (induction gs arbitrary: s) (auto split: prod.splits, metis fst_conv)

subsection \<open>The calls of one stop and of one start\<close>






subsection \<open>The calls of a phase\<close>


lemma Reconfigure_phases:
  assumes stops: "attempt_each (stopConsumerGroup env (Some stopLock)) range_order m = (stops, m1)"
    and starts: "attempt_each (startConsumerGroup env (Some startLock)) (succeeded stops)
                   (m1\<lparr>factory := \<lparr>addrs = brokers, config = cfg\<rparr>\<rparr>) = (starts, m2)"
  shows "Reconfigure env range_order brokers cfg m =
           (foldl multierr_AppendInto None (failures stops @ failures starts), m2)"
  using stops starts
  by (simp add: Reconfigure_def stop_loop_attempt_each start_loop_attempt_each)





lemmas spec_eval =
  Reconfigure_def stopConsumerGroup_def startConsumerGroup_def lockBefore_def unlockAfter_def
  createConsumerGroup_def getGroup_def called_def
  spec_env_def spec_processLock_def spec_stop_def spec_start_def spec_createManagedGroup_def
  spec_newConsumerGroup_def manager_g1_g2_def stopLock_def startLock_def internalToken_def
  multierr_AppendInto_def

subsection \<open>Stops before starts, and the combined error\<close>



text \<open>
  C4. \<^verbatim>\<open>Reconfigure\<close> does not stop at a failure. With the range yielding exactly the
  registered group ids, it attempts a stop on every registered group, whatever the
  earlier stops returned, then a start on every group whose stop returned \<^verbatim>\<open>nil\<close>,
  whatever the earlier starts returned. The error it returns holds the errors of all
  failed stops followed by the errors of all failed starts, and it is \<^verbatim>\<open>nil\<close> exactly
  when no stop and no start failed.
\<close>

theorem Reconfigure_aggregates:
  assumes registered: "set range_order = dom (groups m)"
  shows "\<exists>stops m1 starts m2.
      attempt_each (stopConsumerGroup env (Some stopLock)) range_order m = (stops, m1)
    \<and> fst ` set stops = {g. IsManaged m g}
    \<and> attempt_each (startConsumerGroup env (Some startLock)) (succeeded stops)
         (m1\<lparr>factory := \<lparr>addrs = brokers, config = cfg\<rparr>\<rparr>) = (starts, m2)
    \<and> map fst starts = succeeded stops
    \<and> snd (Reconfigure env range_order brokers cfg m) = m2
    \<and> multierr_Errors (fst (Reconfigure env range_order brokers cfg m)) =
         concat (map multierr_errors (failures stops @ failures starts))
    \<and> (fst (Reconfigure env range_order brokers cfg m) = None
         \<longleftrightarrow> failures stops = [] \<and> failures starts = [])"
proof -
  obtain stops m1 where
    stops: "attempt_each (stopConsumerGroup env (Some stopLock)) range_order m = (stops, m1)"
    by (cases "attempt_each (stopConsumerGroup env (Some stopLock)) range_order m")
  obtain starts m2 where
    starts: "attempt_each (startConsumerGroup env (Some startLock)) (succeeded stops)
               (m1\<lparr>factory := \<lparr>addrs = brokers, config = cfg\<rparr>\<rparr>) = (starts, m2)"
    by (cases "attempt_each (startConsumerGroup env (Some startLock)) (succeeded stops)
               (m1\<lparr>factory := \<lparr>addrs = brokers, config = cfg\<rparr>\<rparr>)")
  note result = Reconfigure_phases [OF stops starts]
  have "map fst stops = range_order"
    using attempt_each_groupIds [of "stopConsumerGroup env (Some stopLock)" range_order m] stops
    by simp
  then have "fst ` set stops = set range_order" by (metis set_map)
  with registered have all_stopped: "fst ` set stops = {g. IsManaged m g}"
    by (auto simp: IsManaged_def getGroup_def)
  have all_started: "map fst starts = succeeded stops"
    using attempt_each_groupIds [of "startConsumerGroup env (Some startLock)" "succeeded stops"
            "m1\<lparr>factory := \<lparr>addrs = brokers, config = cfg\<rparr>\<rparr>"] starts
    by simp
  have state: "snd (Reconfigure env range_order brokers cfg m) = m2"
    using result by simp
  have errs: "multierr_Errors (fst (Reconfigure env range_order brokers cfg m)) =
         concat (map multierr_errors (failures stops @ failures starts))"
  proof -
    have "multierr_Errors None = []" by (simp add: multierr_Errors_def)
    with result show ?thesis by (simp add: multierr_Errors_foldl)
  qed
  have nil: "fst (Reconfigure env range_order brokers cfg m) = None
         \<longleftrightarrow> failures stops = [] \<and> failures starts = []"
    using result by (simp add: multierr_foldl_None)
  from stops all_stopped starts all_started state errs nil show ?thesis
    by (intro exI [of _ stops] exI [of _ m1] exI [of _ starts] exI [of _ m2] conjI)
qed

theorem Reconfigure_aggregates_witness:
  "set [''g1'', ''g2''] = dom (groups manager_g1_g2)
   \<and> fst (Reconfigure spec_env [''g1'', ''g2''] [''b1''] (SaramaConfig 1) manager_g1_g2) =
       Some (OtherError ''LockConflict'')
   \<and> (\<exists>stops m1 starts m2.
      attempt_each (stopConsumerGroup spec_env (Some stopLock)) [''g1'', ''g2''] manager_g1_g2 = (stops, m1)
    \<and> fst ` set stops = {g. IsManaged manager_g1_g2 g}
    \<and> attempt_each (startConsumerGroup spec_env (Some startLock)) (succeeded stops)
         (m1\<lparr>factory := \<lparr>addrs = [''b1''], config = SaramaConfig 1\<rparr>\<rparr>) = (starts, m2)
    \<and> map fst starts = succeeded stops
    \<and> snd (Reconfigure spec_env [''g1'', ''g2''] [''b1''] (SaramaConfig 1) manager_g1_g2) = m2
    \<and> multierr_Errors (fst (Reconfigure spec_env [''g1'', ''g2''] [''b1''] (SaramaConfig 1) manager_g1_g2)) =
         concat (map multierr_errors (failures stops @ failures starts))
    \<and> (fst (Reconfigure spec_env [''g1'', ''g2''] [''b1''] (SaramaConfig 1) manager_g1_g2) = None
         \<longleftrightarrow> failures stops = [] \<and> failures starts = []))"
proof -
  have registered: "set [''g1'', ''g2''] = dom (groups manager_g1_g2)"
    by (auto simp: manager_g1_g2_def)
  have combined: "fst (Reconfigure spec_env [''g1'', ''g2''] [''b1''] (SaramaConfig 1) manager_g1_g2) =
       Some (OtherError ''LockConflict'')"
    by (simp add: spec_eval)
  show ?thesis
    by (rule conjI [OF registered conjI [OF combined Reconfigure_aggregates [OF registered]]])
qed

section \<open>The consume goroutine forwards every error but the sentinel\<close>

lemma forwarded_no_sentinel: "ErrClosedConsumerGroup \<notin> set (forwarded consumeErr)"
  by (simp add: forwarded_def split: option.splits)

lemma consume_inv_started: "consume_inv consume_started"
  by (simp add: consume_inv_def consume_started_def)

lemma consume_step_inv:
  assumes inv: "consume_inv s" and step: "consume_step a s = Some s'"
  shows "consume_inv s'"
proof -
  from inv have b: "loop_sent s @ sending (loop s) = concat (map forwarded (consumed s))"
    and f: "length (errorCh s) \<le> errorCh_capacity"
    by (simp_all add: consume_inv_def)
  show ?thesis
  proof (cases a)
    case (Consume_returns consumeErr)
    with step have at: "loop s = At_Consume"
      and s': "s' = s\<lparr>consumed := consumed s @ [consumeErr],
                   loop := (if consumeErr = Some ErrClosedConsumerGroup then Loop_returned
                            else (case consumeErr of
                                    None \<Rightarrow> At_select
                                  | Some e \<Rightarrow> At_send e))\<rparr>"
      by (simp_all split: if_splits)
    from b at have "loop_sent s = concat (map forwarded (consumed s))" by simp
    then have "loop_sent s' @ sending (loop s') = concat (map forwarded (consumed s'))"
      by (simp add: s' forwarded_def split: option.splits)
    with f show ?thesis by (simp add: consume_inv_def s')
  next
    case Loop_sends
    with step obtain e where at: "loop s = At_send e"
      by (cases "loop s") simp_all
    with step Loop_sends have room: "length (errorCh s) < errorCh_capacity"
      and s': "s' = s\<lparr>loop := At_select, errorCh := errorCh s @ [e],
                        loop_sent := loop_sent s @ [e]\<rparr>"
      by (simp_all split: if_splits)
    from b at room show ?thesis by (simp add: consume_inv_def s')
  next
    case Loop_selects
    with step have at: "loop s = At_select"
      and s': "s' = s\<lparr>loop := (if ctx_done s then Loop_returned else At_Consume)\<rparr>"
      by (simp_all split: if_splits)
    from b f at show ?thesis by (simp add: consume_inv_def s')
  next
    case Ctx_is_cancelled
    with step have "s' = s\<lparr>ctx_done := True\<rparr>" by simp
    with b f show ?thesis by (simp add: consume_inv_def)
  next
    case (Other_sends e)
    with step have room: "length (errorCh s) < errorCh_capacity"
      and s': "s' = s\<lparr>errorCh := errorCh s @ [e]\<rparr>"
      by (simp_all split: if_splits)
    from b room show ?thesis by (simp add: consume_inv_def s')
  next
    case Reader_receives
    with step obtain e rest where "errorCh s = e # rest" and s': "s' = s\<lparr>errorCh := rest\<rparr>"
      by (cases "errorCh s") simp_all
    with b f show ?thesis by (simp add: consume_inv_def)
  qed
qed

lemma consume_run_inv:
  assumes "consume_inv s" and "consume_run schedule s = Some s'"
  shows "consume_inv s'"
  using assms
proof (induction schedule arbitrary: s)
  case Nil
  then show ?case by simp
next
  case (Cons a schedule)
  from Cons.prems(2) obtain s1 where step: "consume_step a s = Some s1"
    and rest: "consume_run schedule s1 = Some s'"
    by (auto split: option.splits)
  from consume_step_inv [OF Cons.prems(1) step] rest show ?case by (rule Cons.IH)
qed

text \<open>
  C3, as the code has it. In every state the loop reaches from its start, under every
  schedule of \<^verbatim>\<open>Consume\<close> results, cancellations, other senders and readers:
  \<^item> the closed-group sentinel is never among the errors the loop has sent on the error
    channel;
  \<^item> the errors the loop has sent, followed by the error it is sending, are, in order,
    the results of \<^verbatim>\<open>Consume\<close> that are neither \<^verbatim>\<open>nil\<close> nor the sentinel;
  \<^item> at the send of an error with the channel full, at its capacity of ten, the loop
    has no step, whether or not the context is cancelled; when a reader has received
    from the channel, the send appends the error to the channel and the loop goes on
    to a fresh call of \<^verbatim>\<open>Consume\<close>, unless the context is cancelled, in which case it
    returns;
  \<^item> at the send of an error with room in the channel, the send appends the error and
    the loop goes on in the same way;
  \<^item> at the \<^verbatim>\<open>select\<close> after a \<^verbatim>\<open>nil\<close> result the loop goes on in the same way.
\<close>

theorem consume_loop_forwards:
  assumes "consume_run schedule consume_started = Some s"
  shows "ErrClosedConsumerGroup \<notin> set (loop_sent s)
       \<and> loop_sent s @ sending (loop s) = concat (map forwarded (consumed s))
       \<and> length (errorCh s) \<le> errorCh_capacity
       \<and> (\<forall>e. loop s = At_send e \<and> length (errorCh s) = errorCh_capacity \<longrightarrow>
             consume_step Loop_sends s = None \<and> consume_step Loop_selects s = None
           \<and> (\<forall>consumeErr. consume_step (Consume_returns consumeErr) s = None)
           \<and> consume_run [Reader_receives, Loop_sends, Loop_selects] s =
               Some (s\<lparr>loop := (if ctx_done s then Loop_returned else At_Consume),
                       errorCh := tl (errorCh s) @ [e],
                       loop_sent := loop_sent s @ [e]\<rparr>))
       \<and> (\<forall>e. loop s = At_send e \<and> length (errorCh s) < errorCh_capacity \<longrightarrow>
             consume_run [Loop_sends, Loop_selects] s =
               Some (s\<lparr>loop := (if ctx_done s then Loop_returned else At_Consume),
                       errorCh := errorCh s @ [e],
                       loop_sent := loop_sent s @ [e]\<rparr>))
       \<and> (loop s = At_select \<longrightarrow>
             consume_step Loop_selects s =
               Some (s\<lparr>loop := (if ctx_done s then Loop_returned else At_Consume)\<rparr>))"
proof -
  from consume_run_inv [OF consume_inv_started assms]
  have b: "loop_sent s @ sending (loop s) = concat (map forwarded (consumed s))"
    and f: "length (errorCh s) \<le> errorCh_capacity"
    by (simp_all add: consume_inv_def)
  have "set (loop_sent s) \<subseteq> set (concat (map forwarded (consumed s)))"
    using b by (metis set_append sup_ge1)
  then have a: "ErrClosedConsumerGroup \<notin> set (loop_sent s)"
    using forwarded_no_sentinel by auto
  have full: "\<forall>e. loop s = At_send e \<and> length (errorCh s) = errorCh_capacity \<longrightarrow>
             consume_step Loop_sends s = None \<and> consume_step Loop_selects s = None
           \<and> (\<forall>consumeErr. consume_step (Consume_returns consumeErr) s = None)
           \<and> consume_run [Reader_receives, Loop_sends, Loop_selects] s =
               Some (s\<lparr>loop := (if ctx_done s then Loop_returned else At_Consume),
                       errorCh := tl (errorCh s) @ [e],
                       loop_sent := loop_sent s @ [e]\<rparr>)"
  proof (intro allI impI)
    fix e assume h: "loop s = At_send e \<and> length (errorCh s) = errorCh_capacity"
    then obtain x rest where ch: "errorCh s = x # rest"
      by (cases "errorCh s") (simp_all add: errorCh_capacity_def)
    with h have "length rest < errorCh_capacity" by simp
    with h ch show "consume_step Loop_sends s = None \<and> consume_step Loop_selects s = None
           \<and> (\<forall>consumeErr. consume_step (Consume_returns consumeErr) s = None)
           \<and> consume_run [Reader_receives, Loop_sends, Loop_selects] s =
               Some (s\<lparr>loop := (if ctx_done s then Loop_returned else At_Consume),
                       errorCh := tl (errorCh s) @ [e],
                       loop_sent := loop_sent s @ [e]\<rparr>)"
      by simp
  qed
  have room: "\<forall>e. loop s = At_send e \<and> length (errorCh s) < errorCh_capacity \<longrightarrow>
             consume_run [Loop_sends, Loop_selects] s =
               Some (s\<lparr>loop := (if ctx_done s then Loop_returned else At_Consume),
                       errorCh := errorCh s @ [e],
                       loop_sent := loop_sent s @ [e]\<rparr>)"
    by simp
  have sel: "loop s = At_select \<longrightarrow>
             consume_step Loop_selects s =
               Some (s\<lparr>loop := (if ctx_done s then Loop_returned else At_Consume)\<rparr>)"
    by simp
  from a b f full room sel show ?thesis by (intro conjI)
qed

theorem consume_loop_forwards_witness:
  "consume_run eleven_errors consume_started = Some stopped_at_e11
   \<and> loop stopped_at_e11 = At_send (OtherError ''e11'')
   \<and> length (errorCh stopped_at_e11) = errorCh_capacity
   \<and> ErrClosedConsumerGroup \<notin> set (loop_sent stopped_at_e11)
   \<and> loop_sent stopped_at_e11 @ sending (loop stopped_at_e11) =
       concat (map forwarded (consumed stopped_at_e11))
   \<and> consume_step Loop_sends stopped_at_e11 = None
   \<and> consume_run [Reader_receives, Loop_sends, Loop_selects] stopped_at_e11 =
       Some (stopped_at_e11\<lparr>loop := At_Consume,
               errorCh := replicate 9 (OtherError ''e'') @ [OtherError ''e11''],
               loop_sent := replicate 10 (OtherError ''e'') @ [OtherError ''e11'']\<rparr>)"
proof -
  have run: "consume_run eleven_errors consume_started = Some stopped_at_e11"
    by (simp add: eleven_errors_def stopped_at_e11_def consume_started_def errorCh_capacity_def
        eval_nat_numeral)
  have at: "loop stopped_at_e11 = At_send (OtherError ''e11'')"
    and full: "length (errorCh stopped_at_e11) = errorCh_capacity"
    and not_done: "\<not> ctx_done stopped_at_e11"
    and ch: "tl (errorCh stopped_at_e11) = replicate 9 (OtherError ''e'')"
    and sent: "loop_sent stopped_at_e11 = replicate 10 (OtherError ''e'')"
    by (simp_all add: stopped_at_e11_def errorCh_capacity_def eval_nat_numeral)
  note claim = consume_loop_forwards [OF run]
  from claim have no_sentinel: "ErrClosedConsumerGroup \<notin> set (loop_sent stopped_at_e11)"
    by (rule conjunct1)
  from claim have all_sent: "loop_sent stopped_at_e11 @ sending (loop stopped_at_e11) =
       concat (map forwarded (consumed stopped_at_e11))"
    by (rule conjunct2 [THEN conjunct1])
  from claim at full have "consume_step Loop_sends stopped_at_e11 = None
      \<and> consume_run [Reader_receives, Loop_sends, Loop_selects] stopped_at_e11 =
          Some (stopped_at_e11\<lparr>loop := (if ctx_done stopped_at_e11 then Loop_returned else At_Consume),
                  errorCh := tl (errorCh stopped_at_e11) @ [OtherError ''e11''],
                  loop_sent := loop_sent stopped_at_e11 @ [OtherError ''e11'']\<rparr>)"
    by blast
  with not_done ch sent have waits: "consume_step Loop_sends stopped_at_e11 = None"
    and resumes: "consume_run [Reader_receives, Loop_sends, Loop_selects] stopped_at_e11 =
       Some (stopped_at_e11\<lparr>loop := At_Consume,
               errorCh := replicate 9 (OtherError ''e'') @ [OtherError ''e11''],
               loop_sent := replicate 10 (OtherError ''e'') @ [OtherError ''e11'']\<rparr>)"
    by simp_all
  show ?thesis
    by (intro conjI run at full no_sentinel all_sent waits resumes)
qed

text \<open>
  The claim as the specification words it fails: after ten errors that no reader has
  received, \<^verbatim>\<open>Consume\<close> returns the error \<open>e11\<close>, which is neither \<^verbatim>\<open>nil\<close> nor the
  sentinel, and the context is not cancelled. The error is not appended to the
  channel and the loop is not in a fresh call of \<^verbatim>\<open>Consume\<close>: it can neither send nor
  reach the \<^verbatim>\<open>select\<close>, and cancelling the context does not change that.
\<close>

theorem consume_loop_blocks_counterexample:
  "consume_run eleven_errors consume_started = Some stopped_at_e11
   \<and> consumed stopped_at_e11 =
       replicate 10 (Some (OtherError ''e'')) @ [Some (OtherError ''e11'')]
   \<and> \<not> ctx_done stopped_at_e11
   \<and> OtherError ''e11'' \<notin> set (errorCh stopped_at_e11)
   \<and> loop stopped_at_e11 \<noteq> At_Consume
   \<and> consume_step Loop_sends stopped_at_e11 = None
   \<and> consume_step Loop_selects stopped_at_e11 = None
   \<and> consume_run [Ctx_is_cancelled, Loop_sends] stopped_at_e11 = None
   \<and> consume_run [Ctx_is_cancelled, Loop_selects] stopped_at_e11 = None"
  by (simp add: eleven_errors_def stopped_at_e11_def consume_started_def errorCh_capacity_def
      eval_nat_numeral)

section \<open>Close returns after the goroutine has exited\<close>

lemma snoc_split:
  assumes "h @ [x] = pre @ e # post"
  shows "(post = [] \<and> pre = h \<and> e = x) \<or> (\<exists>post'. h = pre @ e # post' \<and> post = post' @ [x])"
proof (cases post rule: rev_cases)
  case Nil
  with assms show ?thesis by simp
next
  case (snoc post' y)
  with assms have "h @ [x] = (pre @ e # post') @ [y]" by simp
  then have "h = pre @ e # post'" and "x = y" by simp_all
  with snoc show ?thesis by simp
qed

lemma snoc2_split:
  assumes "h @ [x, y] = pre @ e # post"
  shows "(post = [] \<and> pre = h @ [x] \<and> e = y)
       \<or> (post = [y] \<and> pre = h \<and> e = x)
       \<or> (\<exists>post'. h = pre @ e # post' \<and> post = post' @ [x, y])"
proof -
  from assms have "(h @ [x]) @ [y] = pre @ e # post" by simp
  from snoc_split [OF this] show ?thesis
  proof
    assume "post = [] \<and> pre = h @ [x] \<and> e = y"
    then show ?thesis by simp
  next
    assume "\<exists>post'. h @ [x] = pre @ e # post' \<and> post = post' @ [y]"
    then obtain post' where a: "h @ [x] = pre @ e # post'" and b: "post = post' @ [y]" by blast
    from snoc_split [OF a] b show ?thesis by auto
  qed
qed


lemma closed_before_snoc:
  assumes "closed_before h" and "after_exit x \<longrightarrow> ErrorCh_closed \<in> set h"
  shows "closed_before (h @ [x])"
  unfolding closed_before_def
proof (intro allI impI)
  fix pre e post
  assume split: "h @ [x] = pre @ e # post" and late: "after_exit e"
  from snoc_split [OF split] show "ErrorCh_closed \<in> set pre"
  proof
    assume "post = [] \<and> pre = h \<and> e = x"
    with late assms(2) show ?thesis by simp
  next
    assume "\<exists>post'. h = pre @ e # post' \<and> post = post' @ [x]"
    then obtain post' where "h = pre @ e # post'" by blast
    with assms(1) late show ?thesis unfolding closed_before_def by blast
  qed
qed

lemma released_before_snoc:
  assumes "released_before h" and "\<And>i. after_release i x \<Longrightarrow> Released i \<in> set h"
  shows "released_before (h @ [x])"
  unfolding released_before_def
proof (intro allI impI)
  fix pre e post i
  assume split: "h @ [x] = pre @ e # post" and late: "after_release i e"
  from snoc_split [OF split] show "Released i \<in> set pre"
  proof
    assume "post = [] \<and> pre = h \<and> e = x"
    with late assms(2) show ?thesis by simp
  next
    assume "\<exists>post'. h = pre @ e # post' \<and> post = post' @ [x]"
    then obtain post' where "h = pre @ e # post'" by blast
    with assms(1) late show ?thesis unfolding released_before_def by blast
  qed
qed

lemma Close_calls_update:
  assumes old: "\<forall>j < length xs. past_receive (xs ! j) \<longrightarrow> P j"
    and new: "past_receive pc \<longrightarrow> P i"
  shows "\<forall>j < length (xs[i := pc]). past_receive (xs[i := pc] ! j) \<longrightarrow> P j"
proof (intro allI impI)
  fix j
  assume j: "j < length (xs[i := pc])" and past: "past_receive (xs[i := pc] ! j)"
  show "P j"
  proof (cases "j = i")
    case True
    with j past new show ?thesis by simp
  next
    case False
    with j past old show ?thesis by simp
  qed
qed

lemma Close_inv_started: "Close_inv started"
  by (simp add: Close_inv_def started_def closed_before_def released_before_def)

lemma Close_step_inv:
  assumes inv: "Close_inv s" and step: "Close_step a s = Some s'"
  shows "Close_inv s'"
proof -
  from inv have i1: "(goroutine s = Defer_send_released \<or> goroutine s = Exited) \<longrightarrow>
        handlerErrorChannel_closed s \<and> ErrorCh_closed \<in> set (history s)"
    and i2: "\<forall>i < length (Close_calls s). past_receive (Close_calls s ! i) \<longrightarrow>
        goroutine s = Exited \<and> Released i \<in> set (history s)"
    and i3: "closed_before (history s)"
    and i4: "released_before (history s)"
    by (simp_all add: Close_inv_def)
  show ?thesis
  proof (cases a)
    case Close_is_called
    with step have s': "s' = s\<lparr>Close_calls := Close_calls s @ [At_cancel]\<rparr>" by simp
    have "\<forall>i < length (Close_calls s'). past_receive (Close_calls s' ! i) \<longrightarrow>
        goroutine s' = Exited \<and> Released i \<in> set (history s')"
      using i2 by (auto simp: s' nth_append past_receive_def)
    with i1 i3 i4 show ?thesis by (simp add: Close_inv_def s')
  next
    case (Does_cancel i)
    with step have en: "i < length (Close_calls s)" "Close_calls s ! i = At_cancel"
      and s': "s' = s\<lparr>ctx_cancelled := True,
                   Close_calls := (Close_calls s)[i := At_receive_released],
                   history := history s @ [Cancelled i]\<rparr>"
      by (simp_all split: if_splits)
    have c2: "\<forall>j < length (Close_calls s'). past_receive (Close_calls s' ! j) \<longrightarrow>
        goroutine s' = Exited \<and> Released j \<in> set (history s')"
    proof -
      have "\<forall>j < length (Close_calls s). past_receive (Close_calls s ! j) \<longrightarrow>
          goroutine s = Exited \<and> Released j \<in> set (history s @ [Cancelled i])"
        using i2 by simp
      from Close_calls_update [OF this, of At_receive_released i] show ?thesis
        by (simp add: s' past_receive_def)
    qed
    have c3: "closed_before (history s')"
      using closed_before_snoc [OF i3, of "Cancelled i"] by (simp add: s')
    have c4: "released_before (history s')"
      using released_before_snoc [OF i4, of "Cancelled i"] by (simp add: s')
    from i1 c2 c3 c4 show ?thesis by (simp add: Close_inv_def s')
  next
    case Consume_returns_closed
    with step have en: "goroutine s = Looping"
      and s': "s' = s\<lparr>goroutine := Defer_close_errorCh\<rparr>"
      by (simp_all split: if_splits)
    from i2 en have "\<forall>i < length (Close_calls s). \<not> past_receive (Close_calls s ! i)" by auto
    with i3 i4 show ?thesis by (simp add: Close_inv_def s')
  next
    case Sees_ctx_done
    with step have en: "goroutine s = Looping"
      and s': "s' = s\<lparr>goroutine := Defer_close_errorCh\<rparr>"
      by (simp_all split: if_splits)
    from i2 en have "\<forall>i < length (Close_calls s). \<not> past_receive (Close_calls s ! i)" by auto
    with i3 i4 show ?thesis by (simp add: Close_inv_def s')
  next
    case Does_close_errorCh
    with step have en: "goroutine s = Defer_close_errorCh"
      and s': "s' = s\<lparr>goroutine := Defer_send_released,
                   handlerErrorChannel_closed := True,
                   history := history s @ [ErrorCh_closed]\<rparr>"
      by (simp_all split: if_splits)
    from i2 en have c2: "\<forall>i < length (Close_calls s). \<not> past_receive (Close_calls s ! i)" by auto
    have c3: "closed_before (history s')"
      using closed_before_snoc [OF i3, of ErrorCh_closed] by (simp add: s')
    have c4: "released_before (history s')"
      using released_before_snoc [OF i4, of ErrorCh_closed] by (simp add: s')
    from c2 c3 c4 show ?thesis by (simp add: Close_inv_def s')
  next
    case (Does_release i)
    with step have en: "goroutine s = Defer_send_released" "i < length (Close_calls s)"
        "Close_calls s ! i = At_receive_released"
      and s': "s' = s\<lparr>goroutine := Exited,
                   Close_calls := (Close_calls s)[i := At_underlying_Close],
                   history := history s @ [Released i]\<rparr>"
      by (simp_all split: if_splits)
    from i1 en have closed: "handlerErrorChannel_closed s" "ErrorCh_closed \<in> set (history s)"
      by simp_all
    from i2 en have none: "\<forall>j < length (Close_calls s). \<not> past_receive (Close_calls s ! j)" by auto
    have c2: "\<forall>j < length (Close_calls s'). past_receive (Close_calls s' ! j) \<longrightarrow>
        goroutine s' = Exited \<and> Released j \<in> set (history s')"
    proof -
      have "\<forall>j < length (Close_calls s). past_receive (Close_calls s ! j) \<longrightarrow>
          Exited = Exited \<and> Released j \<in> set (history s @ [Released i])"
        using none by simp
      from Close_calls_update [OF this, of At_underlying_Close i] show ?thesis
        by (simp add: s')
    qed
    have c3: "closed_before (history s')"
      using closed_before_snoc [OF i3, of "Released i"] closed by (simp add: s')
    have c4: "released_before (history s')"
      using released_before_snoc [OF i4, of "Released i"] by (simp add: s')
    from closed c2 c3 c4 show ?thesis by (simp add: Close_inv_def s')
  next
    case (Underlying_Close_returns i err)
    with step have en: "i < length (Close_calls s)" "Close_calls s ! i = At_underlying_Close"
      and s': "s' = s\<lparr>Close_calls := (Close_calls s)[i := Returned err],
                   history := history s @ [Underlying_Close i, Close_returned i]\<rparr>"
      by (simp_all split: if_splits)
    from i2 en have ex: "goroutine s = Exited" and rel: "Released i \<in> set (history s)"
      by (simp_all add: past_receive_def)
    from i1 ex have closed: "ErrorCh_closed \<in> set (history s)" by simp
    have c1: "(goroutine s' = Defer_send_released \<or> goroutine s' = Exited) \<longrightarrow>
        handlerErrorChannel_closed s' \<and> ErrorCh_closed \<in> set (history s')"
      using i1 by (simp add: s')
    have c2: "\<forall>j < length (Close_calls s'). past_receive (Close_calls s' ! j) \<longrightarrow>
        goroutine s' = Exited \<and> Released j \<in> set (history s')"
    proof -
      have "\<forall>j < length (Close_calls s). past_receive (Close_calls s ! j) \<longrightarrow>
          goroutine s = Exited
          \<and> Released j \<in> set (history s @ [Underlying_Close i, Close_returned i])"
        using i2 by simp
      from Close_calls_update [OF this, of "Returned err" i] ex rel show ?thesis
        by (simp add: s')
    qed
    have h: "history s' = (history s @ [Underlying_Close i]) @ [Close_returned i]"
      by (simp add: s')
    have c3: "closed_before (history s')"
      unfolding h
      by (intro closed_before_snoc) (use i3 closed in simp_all)
    have c4: "released_before (history s')"
      unfolding h
      by (intro released_before_snoc) (use i4 rel in simp_all)
    from c1 c2 c3 c4 show ?thesis by (simp add: Close_inv_def)
  qed
qed

lemma Close_run_inv:
  assumes "Close_inv s" and "Close_run schedule s = Some s'"
  shows "Close_inv s'"
  using assms
proof (induction schedule arbitrary: s)
  case Nil
  then show ?case by simp
next
  case (Cons a schedule)
  from Cons.prems(2) obtain s1 where step: "Close_step a s = Some s1"
    and rest: "Close_run schedule s1 = Some s'"
    by (auto split: option.splits)
  from Close_step_inv [OF Cons.prems(1) step] rest show ?case by (rule Cons.IH)
qed

text \<open>
  C9. In every state the system reaches from its start, under every schedule and with
  any number of calls of \<^verbatim>\<open>Close\<close>: a call of \<^verbatim>\<open>Close\<close> that has returned finds the
  goroutine exited and the handler error channel closed; and in the history, the
  invocation of the underlying \<^verbatim>\<open>Close\<close> by a call and the return of that call come
  after the closing of the error channel and after the release that the call received
  from the goroutine as its last act.
\<close>

theorem Close_returns_after_goroutine:
  assumes "Close_run schedule started = Some s"
  shows "(\<forall>i err. i < length (Close_calls s) \<and> Close_calls s ! i = Returned err \<longrightarrow>
            goroutine s = Exited \<and> handlerErrorChannel_closed s)
       \<and> (\<forall>pre e post i. history s = pre @ e # post
              \<and> (e = Underlying_Close i \<or> e = Close_returned i) \<longrightarrow>
            ErrorCh_closed \<in> set pre \<and> Released i \<in> set pre)"
proof -
  from Close_run_inv [OF Close_inv_started assms] have inv: "Close_inv s" .
  then have i1: "goroutine s = Exited \<longrightarrow> handlerErrorChannel_closed s"
    and i2: "\<forall>i < length (Close_calls s). past_receive (Close_calls s ! i) \<longrightarrow> goroutine s = Exited"
    and i3: "closed_before (history s)"
    and i4: "released_before (history s)"
    by (simp_all add: Close_inv_def)
  have a: "\<forall>i err. i < length (Close_calls s) \<and> Close_calls s ! i = Returned err \<longrightarrow>
            goroutine s = Exited \<and> handlerErrorChannel_closed s"
    using i1 i2 by (auto simp: past_receive_def)
  have b: "\<forall>pre e post i. history s = pre @ e # post
              \<and> (e = Underlying_Close i \<or> e = Close_returned i) \<longrightarrow>
            ErrorCh_closed \<in> set pre \<and> Released i \<in> set pre"
  proof (intro allI impI)
    fix pre e post i
    assume h: "history s = pre @ e # post \<and> (e = Underlying_Close i \<or> e = Close_returned i)"
    then have "after_exit e" and "after_release i e" by auto
    with h i3 i4 show "ErrorCh_closed \<in> set pre \<and> Released i \<in> set pre"
      unfolding closed_before_def released_before_def by blast
  qed
  from a b show ?thesis ..
qed


theorem Close_returns_after_goroutine_witness:
  "\<exists>s. Close_run [Close_is_called, Does_cancel 0, Sees_ctx_done, Does_close_errorCh,
                    Does_release 0, Underlying_Close_returns 0 None] started = Some s
       \<and> Close_calls s = [Returned None]
       \<and> history s = [Cancelled 0, ErrorCh_closed, Released 0, Underlying_Close 0, Close_returned 0]
       \<and> goroutine s = Exited \<and> handlerErrorChannel_closed s
       \<and> ((\<forall>i err. i < length (Close_calls s) \<and> Close_calls s ! i = Returned err \<longrightarrow>
            goroutine s = Exited \<and> handlerErrorChannel_closed s)
         \<and> (\<forall>pre e post i. history s = pre @ e # post
              \<and> (e = Underlying_Close i \<or> e = Close_returned i) \<longrightarrow>
            ErrorCh_closed \<in> set pre \<and> Released i \<in> set pre))"
proof -
  have "\<exists>s. Close_run [Close_is_called, Does_cancel 0, Sees_ctx_done, Does_close_errorCh,
                    Does_release 0, Underlying_Close_returns 0 None] started = Some s
       \<and> Close_calls s = [Returned None]
       \<and> history s = [Cancelled 0, ErrorCh_closed, Released 0, Underlying_Close 0, Close_returned 0]
       \<and> goroutine s = Exited \<and> handlerErrorChannel_closed s"
    by (simp add: started_def)
  then obtain s where run: "Close_run [Close_is_called, Does_cancel 0, Sees_ctx_done,
        Does_close_errorCh, Does_release 0, Underlying_Close_returns 0 None] started = Some s"
    and facts: "Close_calls s = [Returned None]"
      "history s = [Cancelled 0, ErrorCh_closed, Released 0, Underlying_Close 0, Close_returned 0]"
      "goroutine s = Exited" "handlerErrorChannel_closed s"
    by blast
  from run facts Close_returns_after_goroutine [OF run] show ?thesis by blast
qed

section \<open>The merged channel yields every value and closes last\<close>





lemma yielded_from_snoc:
  "yielded_from j (s\<lparr>yielded := yielded s @ [(i, v)]\<rparr>) =
     (if j = i then yielded_from j s @ [v] else yielded_from j s)"
  by (simp add: yielded_from_def)

lemma live_member: "i \<in> live s \<longleftrightarrow> i < channels s \<and> forwarder s i \<noteq> Done"
  by (simp add: live_def)

















end
